theory Spec2Isabelle
  imports Complex_Main
begin

section \<open>Python values used by \<open>git_data.py\<close>\<close>

text \<open>
  A Python \<open>str\<close> is modelled as a \<open>string\<close>: the text is read as a sequence of characters
  with code points below 256. In that range the regular-expression class \<open>\d\<close> is exactly
  \<open>0\<close>..\<open>9\<close>, and \<open>str.isspace\<close> holds for the twelve code points listed in \<open>isspace\<close>.
  Python integers are \<open>int\<close>. Exceptions are values of \<open>py_exception\<close>; a function that can
  raise returns \<open>py_exception + 'a\<close>, with \<open>Inl\<close> for the raised exception.
\<close>

datatype py_exception =
    ValueError | IndexError | RuntimeError
  | TimeoutExpired | FileNotFoundError | CalledProcessError | OtherException

abbreviation NL :: char where "NL \<equiv> CHR 0x0A"
abbreviation CR :: char where "CR \<equiv> CHR 0x0D"

text \<open>\<open>s.startswith(p)\<close>\<close>

fun startswith :: "string \<Rightarrow> string \<Rightarrow> bool" where
  "startswith s [] = True"
| "startswith [] (p # ps) = False"
| "startswith (c # cs) (p # ps) = (c = p \<and> startswith cs ps)"

text \<open>\<open>s.split("\n")\<close>: never empty, one more piece than there are newlines; \<open>cur\<close> is the
  piece being read, reversed.\<close>

fun split_nl_from :: "string \<Rightarrow> string \<Rightarrow> string list" where
  "split_nl_from cur [] = [rev cur]"
| "split_nl_from cur (c # cs) =
     (if c = NL then rev cur # split_nl_from [] cs else split_nl_from (c # cur) cs)"

definition split_nl :: "string \<Rightarrow> string list" where
  "split_nl s = split_nl_from [] s"

text \<open>\<open>"\n".join(ls)\<close>\<close>

fun join_nl :: "string list \<Rightarrow> string" where
  "join_nl [] = []"
| "join_nl [l] = l"
| "join_nl (l # m # ls) = l @ NL # join_nl (m # ls)"

definition isspace :: "char \<Rightarrow> bool" where
  "isspace c = ((of_char c :: nat) \<in> {9, 10, 11, 12, 13, 28, 29, 30, 31, 32, 133, 160})"

definition is_digit :: "char \<Rightarrow> bool" where
  "is_digit c = (48 \<le> (of_char c :: nat) \<and> (of_char c :: nat) \<le> 57)"

text \<open>\<open>s.strip()\<close>\<close>

definition strip :: "string \<Rightarrow> string" where
  "strip s = rev (dropWhile isspace (rev (dropWhile isspace s)))"

text \<open>\<open>s.split()\<close>: the maximal runs of non-whitespace characters; \<open>cur\<close> is the run being
  read, reversed.\<close>

fun split_ws_from :: "string \<Rightarrow> string \<Rightarrow> string list" where
  "split_ws_from cur [] = (if cur = [] then [] else [rev cur])"
| "split_ws_from cur (c # cs) =
     (if isspace c then (if cur = [] then split_ws_from [] cs else rev cur # split_ws_from [] cs)
      else split_ws_from (c # cur) cs)"

definition split_ws :: "string \<Rightarrow> string list" where
  "split_ws s = split_ws_from [] s"

text \<open>\<open>s.splitlines()\<close>: line boundaries are \<open>\n\<close>, \<open>\r\<close>, \<open>\r\n\<close>, \<open>\v\<close>, \<open>\f\<close>, \<open>\x1c\<close>,
  \<open>\x1d\<close>, \<open>\x1e\<close> and \<open>\x85\<close>; no empty piece after a final boundary.\<close>

definition is_linebreak :: "char \<Rightarrow> bool" where
  "is_linebreak c = ((of_char c :: nat) \<in> {10, 11, 12, 13, 28, 29, 30, 133})"

fun splitlines_from :: "string \<Rightarrow> string \<Rightarrow> string list" where
  "splitlines_from cur [] = (if cur = [] then [] else [rev cur])"
| "splitlines_from cur [c] =
     (if is_linebreak c then [rev cur] else [rev (c # cur)])"
| "splitlines_from cur (c # d # ds) =
     (if c = CR \<and> d = NL then rev cur # splitlines_from [] ds
      else if is_linebreak c then rev cur # splitlines_from [] (d # ds)
      else splitlines_from (c # cur) (d # ds))"

definition splitlines :: "string \<Rightarrow> string list" where
  "splitlines s = splitlines_from [] s"

text \<open>\<open>xs[-1]\<close>: raises \<open>IndexError\<close> on the empty list.\<close>

definition py_last :: "'a list \<Rightarrow> py_exception + 'a" where
  "py_last xs = (if xs = [] then Inl IndexError else Inr (last xs))"

text \<open>
  \<open>int(s)\<close> on a decimal string. CPython limits the conversion of decimal strings
  (\<open>sys.int_max_str_digits\<close>, 4300 by default, in 3.11 and in the security releases of
  3.7 to 3.10): a string of more digits raises \<open>ValueError\<close>, as does a string that is not a
  run of digits (the parser only passes what \<open>\d+\<close> captured).
\<close>

definition int_max_str_digits :: nat where
  "int_max_str_digits = 4300"

definition digit_val :: "char \<Rightarrow> int" where
  "digit_val c = int (of_char c) - 48"

definition dec_value :: "string \<Rightarrow> int" where
  "dec_value ds = foldl (\<lambda>a c. 10 * a + digit_val c) 0 ds"

definition py_int :: "string \<Rightarrow> py_exception + int" where
  "py_int ds =
     (if ds = [] \<or> \<not> list_all is_digit ds then Inl ValueError
      else if length ds > int_max_str_digits then Inl ValueError
      else Inr (dec_value ds))"

section \<open>The regular expressions of \<open>parse_diff\<close>\<close>

text \<open>
  The lines matched come from \<open>split("\n")\<close> and hold no newline, so \<open>.\<close> matches every
  character of a line.
\<close>

definition strip_prefix :: "string \<Rightarrow> string \<Rightarrow> string option" where
  "strip_prefix p s = (if startswith s p then Some (drop (length p) s) else None)"

text \<open>\<open>(\d+)\<close> at the start of \<open>s\<close>: the longest run of digits, which must not be empty. The
  patterns below continue with a character that is not a digit, so no shorter run can
  match.\<close>

definition span_digits :: "string \<Rightarrow> (string \<times> string) option" where
  "span_digits s =
     (if takeWhile is_digit s = [] then None
      else Some (takeWhile is_digit s, dropWhile is_digit s))"

text \<open>\<open>(?:,(\d+))?\<close> at the start of \<open>s\<close>, followed in the pattern by a space: the group is
  taken exactly when a comma and a digit follow.\<close>

definition opt_count :: "string \<Rightarrow> string option \<times> string" where
  "opt_count s =
     (case s of
        [] \<Rightarrow> (None, s)
      | c # t \<Rightarrow>
          if c = CHR '','' then
            (case span_digits t of None \<Rightarrow> (None, s) | Some (ds, r) \<Rightarrow> (Some ds, r))
          else (None, s))"

text \<open>\<open>re.match(r"@@ -(\d+)(?:,(\d+))? \+(\d+)(?:,(\d+))? @@(.*)", line)\<close>: the five groups.\<close>

definition match_hunk_header ::
  "string \<Rightarrow> (string \<times> string option \<times> string \<times> string option \<times> string) option" where
  "match_hunk_header line =
     (case strip_prefix ''@@ -'' line of None \<Rightarrow> None | Some s1 \<Rightarrow>
      case span_digits s1 of None \<Rightarrow> None | Some (g1, s2) \<Rightarrow>
      case opt_count s2 of (g2, s3) \<Rightarrow>
      case strip_prefix '' +'' s3 of None \<Rightarrow> None | Some s4 \<Rightarrow>
      case span_digits s4 of None \<Rightarrow> None | Some (g3, s5) \<Rightarrow>
      case opt_count s5 of (g4, s6) \<Rightarrow>
      case strip_prefix '' @@'' s6 of None \<Rightarrow> None | Some g5 \<Rightarrow>
      Some (g1, g2, g3, g4, g5))"

text \<open>\<open>(.+) b/(.+)\<close> on the rest of a line, \<open>pre\<close> being the characters already given to the
  first group: the first group is greedy, so a later \<open> b/\<close> wins; both groups are non-empty.\<close>

fun split_b :: "string \<Rightarrow> string \<Rightarrow> (string \<times> string) option" where
  "split_b pre [] = None"
| "split_b pre (c # cs) =
     (case split_b (pre @ [c]) cs of
        Some r \<Rightarrow> Some r
      | None \<Rightarrow>
          if pre \<noteq> [] \<and> startswith (c # cs) '' b/'' \<and> drop 3 (c # cs) \<noteq> []
          then Some (pre, drop 3 (c # cs)) else None)"

text \<open>\<open>re.match(r"diff --git a/(.+) b/(.+)", line)\<close>\<close>

definition match_git_header :: "string \<Rightarrow> (string \<times> string) option" where
  "match_git_header line =
     (case strip_prefix ''diff --git a/'' line of None \<Rightarrow> None | Some r \<Rightarrow> split_b [] r)"

text \<open>\<open>re.search(r"(\d+)%", line)\<close>: the first position where a run of digits is followed
  by \<open>%\<close>.\<close>

fun search_percent :: "string \<Rightarrow> string option" where
  "search_percent [] = None"
| "search_percent (c # cs) =
     (case span_digits (c # cs) of
        None \<Rightarrow> search_percent cs
      | Some (ds, r) \<Rightarrow> if startswith r ''%'' then Some ds else search_percent cs)"

section \<open>The data model\<close>

text \<open>
  The dictionaries built by \<open>parse_diff\<close>, as records. Keys that two dictionaries share
  (\<open>additions\<close>, \<open>deletions\<close>) and the key \<open>context\<close> carry the prefix \<open>h_\<close> in the hunk.
\<close>

record diff_line =
  type :: string
  content :: string

record hunk =
  old_start :: int
  old_count :: int
  new_start :: int
  new_count :: int
  h_context :: string
  h_lines :: "diff_line list"
  h_additions :: int
  h_deletions :: int

text \<open>
  A file's \<open>hunks\<close> list holds references to hunk dictionaries. While parsing, a reference
  is an address in the store of all hunk dictionaries created so far (\<open>'h = nat\<close>); in the
  result returned to the caller the references are read (\<open>'h = hunk\<close>).
\<close>

record 'h file_diff =
  old_path :: string
  new_path :: string
  status :: string
  hunks :: "'h list"
  additions :: int
  deletions :: int
  is_binary :: bool
  is_new :: bool
  is_deleted :: bool
  old_mode :: "string option"
  new_mode :: "string option"
  similarity :: "int option"

record diff_result =
  files :: "hunk file_diff list"
  total_files :: int
  total_additions :: int
  total_deletions :: int
  stat_summary :: string

text \<open>
  The local variables of \<open>parse_diff\<close>. \<open>heap\<close> is the store of hunk dictionaries:
  \<open>current_hunk\<close> and the entries of \<open>current_hunks\<close> are addresses in it, so that a hunk
  appended to \<open>current_hunks\<close> and changed afterwards through \<open>current_hunk\<close> is the same
  object, as in Python.
\<close>

record parser_state =
  heap :: "hunk list"
  files_done :: "nat file_diff list"
  current_file :: "nat file_diff option"
  current_hunks :: "nat list"
  current_hunk :: "nat option"
  in_hunk :: bool

section \<open>\<open>parse_diff\<close>\<close>

text \<open>\<open>_finalize_file(f)\<close>: the sums are taken over the hunk dictionaries that \<open>f["hunks"]\<close>
  refers to, as they are in the store at that moment.\<close>

definition finalize_file :: "hunk list \<Rightarrow> nat file_diff \<Rightarrow> nat file_diff" where
  "finalize_file hp f =
     f\<lparr>additions := sum_list (map (\<lambda>a. h_additions (hp ! a)) (hunks f)),
       deletions := sum_list (map (\<lambda>a. h_deletions (hp ! a)) (hunks f))\<rparr>"

text \<open>\<open>if current_hunk: current_hunks.append(current_hunk)\<close>; a hunk dictionary is never
  empty, so it is true whenever it is not \<open>None\<close>.\<close>

definition append_current :: "parser_state \<Rightarrow> nat list" where
  "append_current s =
     (case current_hunk s of None \<Rightarrow> current_hunks s | Some c \<Rightarrow> current_hunks s @ [c])"

text \<open>The block that closes the current file, at a file-pair header and at the end of the
  input.\<close>

definition close_file :: "parser_state \<Rightarrow> parser_state" where
  "close_file s =
     (case current_file s of
        None \<Rightarrow> s
      | Some f \<Rightarrow>
          s\<lparr>current_hunks := append_current s,
            files_done :=
              files_done s @ [finalize_file (heap s) (f\<lparr>hunks := append_current s\<rparr>)]\<rparr>)"

definition new_file :: "string \<Rightarrow> string \<Rightarrow> nat file_diff" where
  "new_file old_p new_p =
     \<lparr>old_path = old_p, new_path = new_p, status = ''modified'', hunks = [],
      additions = 0, deletions = 0, is_binary = False, is_new = False, is_deleted = False,
      old_mode = None, new_mode = None, similarity = None\<rparr>"

text \<open>Source lines 370 to 386: the paths are the groups of the pattern, or empty when it
  does not match.\<close>

definition file_of_header :: "string \<Rightarrow> nat file_diff" where
  "file_of_header line =
     (case match_git_header line of None \<Rightarrow> new_file [] [] | Some (a, b) \<Rightarrow> new_file a b)"

definition new_hunk :: "int \<Rightarrow> int \<Rightarrow> int \<Rightarrow> int \<Rightarrow> string \<Rightarrow> hunk" where
  "new_hunk os oc ns nc ctx =
     \<lparr>old_start = os, old_count = oc, new_start = ns, new_count = nc, h_context = ctx,
      h_lines = [], h_additions = 0, h_deletions = 0\<rparr>"

text \<open>An assignment to a key of \<open>current_file\<close>, in a branch guarded by \<open>and current_file\<close>.\<close>

definition set_file :: "(nat file_diff \<Rightarrow> nat file_diff) \<Rightarrow> parser_state \<Rightarrow> parser_state" where
  "set_file g s = s\<lparr>current_file := map_option g (current_file s)\<rparr>"

text \<open>\<open>int(m.group(k)) if m.group(k) is not None else 1\<close>\<close>

definition count_or_1 :: "string option \<Rightarrow> py_exception + int" where
  "count_or_1 g = (case g of None \<Rightarrow> Inr 1 | Some ds \<Rightarrow> py_int ds)"

text \<open>The hunk-header branch (source lines 425 to 440). When the pattern does not match,
  \<open>current_hunk\<close> keeps referring to the hunk that was just appended.\<close>

definition hunk_header_line :: "parser_state \<Rightarrow> string \<Rightarrow> py_exception + parser_state" where
  "hunk_header_line s line =
     (case match_hunk_header line of
        None \<Rightarrow> Inr (s\<lparr>current_hunks := append_current s, in_hunk := True\<rparr>)
      | Some (g1, g2, g3, g4, g5) \<Rightarrow>
          (case py_int g1 of Inl e \<Rightarrow> Inl e | Inr os \<Rightarrow>
           case count_or_1 g2 of Inl e \<Rightarrow> Inl e | Inr oc \<Rightarrow>
           case py_int g3 of Inl e \<Rightarrow> Inl e | Inr ns \<Rightarrow>
           case count_or_1 g4 of Inl e \<Rightarrow> Inl e | Inr nc \<Rightarrow>
           Inr (s\<lparr>heap := heap s @ [new_hunk os oc ns nc (strip g5)],
                  current_hunks := append_current s,
                  current_hunk := Some (length (heap s)),
                  in_hunk := True\<rparr>)))"

text \<open>\<open>current_hunk["lines"].append({"type": t, "content": line[1:]})\<close>, with the counters
  raised by \<open>da\<close> and \<open>dd\<close>, on the hunk dictionary at address \<open>c\<close>.\<close>

definition add_line :: "nat \<Rightarrow> string \<Rightarrow> string \<Rightarrow> int \<Rightarrow> int \<Rightarrow> parser_state \<Rightarrow> parser_state" where
  "add_line c t line da dd s =
     s\<lparr>heap := (heap s)[c :=
          (heap s ! c)\<lparr>h_lines := h_lines (heap s ! c) @ [\<lparr>type = t, content = drop 1 line\<rparr>],
                       h_additions := h_additions (heap s ! c) + da,
                       h_deletions := h_deletions (heap s ! c) + dd\<rparr>]\<rparr>"

text \<open>The body branch (source lines 442 to 454), with \<open>current_hunk\<close> at address \<open>c\<close>.\<close>

definition body_line :: "nat \<Rightarrow> parser_state \<Rightarrow> string \<Rightarrow> parser_state" where
  "body_line c s line =
     (if startswith line ''---'' \<or> startswith line ''+++'' then s
      else if startswith line ''+'' then add_line c ''add'' line 1 0 s
      else if startswith line ''-'' then add_line c ''del'' line 0 1 s
      else if startswith line '' '' then add_line c ''ctx'' line 0 0 s
      else if startswith line [CHR 0x5C] then add_line c ''noeol'' line 0 0 s
      else s)"

text \<open>One turn of the \<open>while\<close> loop: the \<open>if\<close>/\<open>elif\<close> chain of source lines 362 to 454.\<close>

definition parse_line :: "parser_state \<Rightarrow> string \<Rightarrow> py_exception + parser_state" where
  "parse_line s line =
     (if startswith line ''diff --git '' then
        Inr ((close_file s)
          \<lparr>current_file := Some (file_of_header line),
           current_hunks := [], current_hunk := None, in_hunk := False\<rparr>)
      else if startswith line ''new file mode'' \<and> current_file s \<noteq> None then
        (case py_last (split_ws line) of
           Inl e \<Rightarrow> Inl e
         | Inr m \<Rightarrow>
             Inr (set_file (\<lambda>f. f\<lparr>is_new := True, status := ''added'', new_mode := Some m\<rparr>) s))
      else if startswith line ''deleted file mode'' \<and> current_file s \<noteq> None then
        Inr (set_file (\<lambda>f. f\<lparr>is_deleted := True, status := ''deleted''\<rparr>) s)
      else if startswith line ''old mode'' \<and> current_file s \<noteq> None then
        (case py_last (split_ws line) of
           Inl e \<Rightarrow> Inl e
         | Inr m \<Rightarrow> Inr (set_file (\<lambda>f. f\<lparr>old_mode := Some m\<rparr>) s))
      else if startswith line ''new mode'' \<and> current_file s \<noteq> None then
        (case py_last (split_ws line) of
           Inl e \<Rightarrow> Inl e
         | Inr m \<Rightarrow> Inr (set_file (\<lambda>f. f\<lparr>new_mode := Some m\<rparr>) s))
      else if startswith line ''Binary files'' \<and> current_file s \<noteq> None then
        Inr (set_file (\<lambda>f. f\<lparr>is_binary := True\<rparr>) s)
      else if startswith line ''similarity index'' \<and> current_file s \<noteq> None then
        (case search_percent line of
           None \<Rightarrow> Inr s
         | Some ds \<Rightarrow>
             (case py_int ds of
                Inl e \<Rightarrow> Inl e
              | Inr n \<Rightarrow> Inr (set_file (\<lambda>f. f\<lparr>similarity := Some n\<rparr>) s)))
      else if startswith line ''rename from '' \<and> current_file s \<noteq> None then
        Inr (set_file (\<lambda>f. f\<lparr>old_path := drop (length ''rename from '') line,
                              status := ''renamed''\<rparr>) s)
      else if startswith line ''rename to '' \<and> current_file s \<noteq> None then
        Inr (set_file (\<lambda>f. f\<lparr>new_path := drop (length ''rename to '') line,
                              status := ''renamed''\<rparr>) s)
      else if startswith line ''copy from '' \<and> current_file s \<noteq> None then
        Inr (set_file (\<lambda>f. f\<lparr>status := ''copied''\<rparr>) s)
      else if startswith line ''@@'' \<and> current_file s \<noteq> None then
        hunk_header_line s line
      else if in_hunk s \<and> current_hunk s \<noteq> None then
        Inr (body_line (the (current_hunk s)) s line)
      else Inr s)"

text \<open>The \<open>while\<close> loop over the lines; an exception ends it.\<close>

fun parse_lines :: "parser_state \<Rightarrow> string list \<Rightarrow> py_exception + parser_state" where
  "parse_lines s [] = Inr s"
| "parse_lines s (l # ls) =
     (case parse_line s l of Inl e \<Rightarrow> Inl e | Inr s' \<Rightarrow> parse_lines s' ls)"

definition init_state :: parser_state where
  "init_state =
     \<lparr>heap = [], files_done = [], current_file = None, current_hunks = [],
      current_hunk = None, in_hunk = False\<rparr>"

text \<open>Reading the references of a finished file, as a caller of \<open>parse_diff\<close> does.\<close>

definition deref :: "hunk list \<Rightarrow> nat file_diff \<Rightarrow> hunk file_diff" where
  "deref hp f =
     \<lparr>old_path = old_path f, new_path = new_path f, status = status f,
      hunks = map (\<lambda>a. hp ! a) (hunks f),
      additions = additions f, deletions = deletions f, is_binary = is_binary f,
      is_new = is_new f, is_deleted = is_deleted f, old_mode = old_mode f,
      new_mode = new_mode f, similarity = similarity f\<rparr>"

text \<open>\<open>stat_raw.strip().splitlines()[-1] if stat_raw.strip() else ""\<close>\<close>

definition last_stat_line :: "string \<Rightarrow> py_exception + string" where
  "last_stat_line stat_raw =
     (if strip stat_raw \<noteq> [] then py_last (splitlines (strip stat_raw)) else Inr [])"

text \<open>Source lines 458 to 474: close the last file, sum, build the result.\<close>

definition finish :: "parser_state \<Rightarrow> string \<Rightarrow> py_exception + diff_result" where
  "finish s stat_raw =
     (case last_stat_line stat_raw of
        Inl e \<Rightarrow> Inl e
      | Inr summary \<Rightarrow>
          Inr \<lparr>files = map (deref (heap s)) (files_done (close_file s)),
               total_files = int (length (files_done (close_file s))),
               total_additions = sum_list (map additions (files_done (close_file s))),
               total_deletions = sum_list (map deletions (files_done (close_file s))),
               stat_summary = summary\<rparr>)"

text \<open>\<open>parse_diff\<close> on the list of lines, and on the text.\<close>

definition parse_diff_lines :: "string list \<Rightarrow> string \<Rightarrow> py_exception + diff_result" where
  "parse_diff_lines ls stat_raw =
     (case parse_lines init_state ls of Inl e \<Rightarrow> Inl e | Inr s \<Rightarrow> finish s stat_raw)"

definition parse_diff :: "string \<Rightarrow> string \<Rightarrow> py_exception + diff_result" where
  "parse_diff diff_raw stat_raw = parse_diff_lines (split_nl diff_raw) stat_raw"

section \<open>\<open>run_git\<close>\<close>

text \<open>
  What \<open>subprocess.run\<close> meets when it launches \<open>git\<close> with the given arguments, working
  directory and timeout: the process exits with a return code and the text it wrote to
  its standard output; the timeout passes first; the launch raises \<open>FileNotFoundError\<close>
  (no \<open>git\<close> executable on the path, or no such working directory); or any other
  exception is raised.
\<close>

datatype process_end = Exited int string | TimedOut | NoSuchFile | Failed

text \<open>\<open>subprocess.run(..., check=check, timeout=timeout)\<close>: with \<open>check\<close>, a return code
  other than 0 raises \<open>CalledProcessError\<close>.\<close>

definition subprocess_run :: "bool \<Rightarrow> process_end \<Rightarrow> py_exception + int \<times> string" where
  "subprocess_run check p =
     (case p of
        Exited rc out \<Rightarrow> if check \<and> rc \<noteq> 0 then Inl CalledProcessError else Inr (rc, out)
      | TimedOut \<Rightarrow> Inl TimeoutExpired
      | NoSuchFile \<Rightarrow> Inl FileNotFoundError
      | Failed \<Rightarrow> Inl OtherException)"

text \<open>\<open>run_git(args, cwd, check, timeout)\<close>: the \<open>try\<close> with its three \<open>except\<close> clauses, in
  their order.\<close>

definition run_git :: "bool \<Rightarrow> process_end \<Rightarrow> py_exception + string" where
  "run_git check p =
     (case subprocess_run check p of
        Inr (rc, out) \<Rightarrow> Inr out
      | Inl e \<Rightarrow>
          if e = TimeoutExpired then Inr []
          else if e = FileNotFoundError then Inl RuntimeError
          else Inr [])"

section \<open>\<open>_relative_time\<close>\<close>







section \<open>Invariants of the parser state\<close>

text \<open>
  A finished file keeps the sums that \<open>_finalize_file\<close> took: its hunks lie in the store
  and none of them is the hunk that \<open>current_hunk\<close> still refers to, so no later line
  changes them.
\<close>

definition sums_ok :: "hunk list \<Rightarrow> nat file_diff \<Rightarrow> bool" where
  "sums_ok hp f =
     (additions f = sum_list (map (\<lambda>a. h_additions (hp ! a)) (hunks f)) \<and>
      deletions f = sum_list (map (\<lambda>a. h_deletions (hp ! a)) (hunks f)))"

definition state_inv :: "parser_state \<Rightarrow> bool" where
  "state_inv s =
     ((\<forall>f \<in> set (files_done s).
         sums_ok (heap s) f \<and>
         (\<forall>a \<in> set (hunks f). a < length (heap s) \<and> current_hunk s \<noteq> Some a)) \<and>
      (\<forall>c. current_hunk s = Some c \<longrightarrow> c < length (heap s)) \<and>
      (\<forall>a \<in> set (current_hunks s). a < length (heap s)))"

section \<open>Example inputs\<close>

text \<open>The two-file diff of the specification: an added file without hunks, and a modified
  file with one hunk of two additions and one deletion.\<close>

definition two_file_diff :: string where
  "two_file_diff = join_nl
     [''diff --git a/n b/n'', ''new file mode 100644'',
      ''diff --git a/f b/f'', ''@@ -1,2 +1,3 @@ def f'', '' x'', ''-y'', ''+z'', ''+w'']"

definition two_file_result :: diff_result where
  "two_file_result =
     \<lparr>files =
        [\<lparr>old_path = ''n'', new_path = ''n'', status = ''added'',
            hunks = [], additions = 0, deletions = 0, is_binary = False,
            is_new = True, is_deleted = False, old_mode = None,
            new_mode = Some ''100644'', similarity = None\<rparr>,
         \<lparr>old_path = ''f'', new_path = ''f'', status = ''modified'',
            hunks =
              [\<lparr>old_start = 1, old_count = 2, new_start = 1, new_count = 3,
                  h_context = ''def f'',
                  h_lines =
                    [\<lparr>type = ''ctx'', content = ''x''\<rparr>,
                     \<lparr>type = ''del'', content = ''y''\<rparr>,
                     \<lparr>type = ''add'', content = ''z''\<rparr>,
                     \<lparr>type = ''add'', content = ''w''\<rparr>],
                  h_additions = 2, h_deletions = 1\<rparr>],
            additions = 2, deletions = 1, is_binary = False, is_new = False,
            is_deleted = False, old_mode = None, new_mode = None,
            similarity = None\<rparr>],
        total_files = 2, total_additions = 2, total_deletions = 1,
        stat_summary = []\<rparr>"



section \<open>Kinds of lines\<close>

text \<open>The prefixes that the branches before the body branch test (source lines 362 to
  425).\<close>

definition header_prefixes :: "string list" where
  "header_prefixes =
     [''diff --git '', ''new file mode'', ''deleted file mode'', ''old mode'', ''new mode'',
      ''Binary files'', ''similarity index'', ''rename from '', ''rename to '', ''copy from '',
      ''@@'']"

definition is_header_line :: "string \<Rightarrow> bool" where
  "is_header_line l = list_ex (startswith l) header_prefixes"

text \<open>The four markers of a body line.\<close>

definition has_marker :: "string \<Rightarrow> bool" where
  "has_marker l =
     (startswith l ''+'' \<or> startswith l ''-'' \<or> startswith l '' '' \<or> startswith l [CHR 0x5C])"

text \<open>A line that restates a file path: it starts with \<open>---\<close> or \<open>+++\<close>.\<close>

definition is_path_line :: "string \<Rightarrow> bool" where
  "is_path_line l = (startswith l ''---'' \<or> startswith l ''+++'')"




text \<open>The state after the lines \<open>diff --git a/f b/f\<close> and \<open>@@ -1 +1 @@\<close>: one open hunk.\<close>

definition open_hunk_state :: parser_state where
  "open_hunk_state =
     \<lparr>heap = [new_hunk 1 1 1 1 []], files_done = [],
      current_file = Some (new_file ''f'' ''f''), current_hunks = [],
      current_hunk = Some 0, in_hunk = True\<rparr>"


section \<open>The text of a hunk header\<close>

text \<open>What \<open>\d+\<close> matches: a non-empty run of digits. A number that \<open>int\<close> converts: such a
  run within the limit.\<close>

definition is_digits :: "string \<Rightarrow> bool" where
  "is_digits ds = (ds \<noteq> [] \<and> list_all is_digit ds)"

definition is_opt_digits :: "string option \<Rightarrow> bool" where
  "is_opt_digits b = (case b of None \<Rightarrow> True | Some ds \<Rightarrow> is_digits ds)"

definition is_number :: "string \<Rightarrow> bool" where
  "is_number ds = (is_digits ds \<and> length ds \<le> int_max_str_digits)"

definition is_opt_number :: "string option \<Rightarrow> bool" where
  "is_opt_number b = (case b of None \<Rightarrow> True | Some ds \<Rightarrow> is_number ds)"

text \<open>A range \<open>a\<close> or \<open>a,b\<close>, and the header \<open>@@ -a[,b] +c[,d] @@rest\<close>.\<close>

definition range_text :: "string \<Rightarrow> string option \<Rightarrow> string" where
  "range_text a b = a @ (case b of None \<Rightarrow> [] | Some ds \<Rightarrow> CHR '','' # ds)"

definition hunk_header_text ::
  "string \<Rightarrow> string option \<Rightarrow> string \<Rightarrow> string option \<Rightarrow> string \<Rightarrow> string" where
  "hunk_header_text a b c d rest =
     ''@@ -'' @ range_text a b @ '' +'' @ range_text c d @ '' @@'' @ rest"

text \<open>The count that the header states: 1 when the range omits it.\<close>

definition count_of :: "string option \<Rightarrow> int" where
  "count_of b = (case b of None \<Rightarrow> 1 | Some ds \<Rightarrow> dec_value ds)"

text \<open>The state after the line \<open>diff --git a/f b/f\<close>, and the result for that line followed by
  one hunk header with both counts 1.\<close>

definition file_open_state :: parser_state where
  "file_open_state =
     \<lparr>heap = [], files_done = [], current_file = Some (new_file ''f'' ''f''),
      current_hunks = [], current_hunk = None, in_hunk = False\<rparr>"

definition one_hunk_result :: diff_result where
  "one_hunk_result =
     \<lparr>files =
        [\<lparr>old_path = ''f'', new_path = ''f'', status = ''modified'',
            hunks = [new_hunk 1 1 1 1 []], additions = 0, deletions = 0,
            is_binary = False, is_new = False, is_deleted = False, old_mode = None,
            new_mode = None, similarity = None\<rparr>],
        total_files = 1, total_additions = 0, total_deletions = 0, stat_summary = []\<rparr>"

section \<open>Inputs on which the parser goes wrong\<close>

text \<open>A hunk, then a hunk header whose numbers are missing, then one more added line.\<close>

definition malformed_header_diff :: string where
  "malformed_header_diff =
     join_nl [''diff --git a/f b/f'', ''@@ -1 +1 @@'', ''+a'', ''@@ bad'', ''+b'']"

definition malformed_header_result :: diff_result where
  "malformed_header_result =
     \<lparr>files =
        [\<lparr>old_path = ''f'', new_path = ''f'', status = ''modified'',
            hunks =
              [\<lparr>old_start = 1, old_count = 1, new_start = 1, new_count = 1,
                  h_context = [],
                  h_lines = [\<lparr>type = ''add'', content = ''a''\<rparr>,
                             \<lparr>type = ''add'', content = ''b''\<rparr>],
                  h_additions = 2, h_deletions = 0\<rparr>,
               \<lparr>old_start = 1, old_count = 1, new_start = 1, new_count = 1,
                  h_context = [],
                  h_lines = [\<lparr>type = ''add'', content = ''a''\<rparr>,
                             \<lparr>type = ''add'', content = ''b''\<rparr>],
                  h_additions = 2, h_deletions = 0\<rparr>],
            additions = 4, deletions = 0, is_binary = False, is_new = False,
            is_deleted = False, old_mode = None, new_mode = None, similarity = None\<rparr>],
        total_files = 1, total_additions = 4, total_deletions = 0, stat_summary = []\<rparr>"

text \<open>A hunk header whose first number has 4301 digits.\<close>

definition huge_number :: string where
  "huge_number = replicate 4301 CHR ''1''"

definition huge_header_diff :: string where
  "huge_header_diff =
     join_nl [''diff --git a/f b/f'', hunk_header_text huge_number None ''1'' None []]"

section \<open>Sections without hunks\<close>

text \<open>A state inside a file section in which no hunk has been opened; \<open>b\<close> tells whether
  a binary marker has been seen.\<close>

definition hunkless :: "bool \<Rightarrow> nat file_diff list \<Rightarrow> parser_state \<Rightarrow> bool" where
  "hunkless b fin s =
     (files_done s = fin \<and> current_hunks s = [] \<and> current_hunk s = None \<and>
      (case current_file s of None \<Rightarrow> False | Some f \<Rightarrow> b \<longrightarrow> is_binary f))"

text \<open>The binary section of the specification and its result.\<close>

definition binary_section_lines :: "string list" where
  "binary_section_lines =
     [''diff --git a/x.png b/x.png'', ''Binary files a/x.png and b/x.png differ'']"

definition binary_section_result :: diff_result where
  "binary_section_result =
     \<lparr>files =
        [\<lparr>old_path = ''x.png'', new_path = ''x.png'', status = ''modified'',
            hunks = [], additions = 0, deletions = 0, is_binary = True, is_new = False,
            is_deleted = False, old_mode = None, new_mode = None, similarity = None\<rparr>],
        total_files = 1, total_additions = 0, total_deletions = 0, stat_summary = []\<rparr>"

section \<open>The buckets of the specification\<close>



section \<open>The summation invariant\<close>

lemma sums_ok_cong:
  assumes "\<forall>a \<in> set (hunks f). hp' ! a = hp ! a"
  shows "sums_ok hp' f = sums_ok hp f"
proof -
  have "map (\<lambda>a. h_additions (hp' ! a)) (hunks f) = map (\<lambda>a. h_additions (hp ! a)) (hunks f)"
    by (rule map_cong) (simp_all add: assms)
  moreover have "map (\<lambda>a. h_deletions (hp' ! a)) (hunks f) = map (\<lambda>a. h_deletions (hp ! a)) (hunks f)"
    by (rule map_cong) (simp_all add: assms)
  ultimately show ?thesis by (simp only: sums_ok_def)
qed

lemma sums_ok_finalize: "sums_ok hp (finalize_file hp f)"
  by (simp add: sums_ok_def finalize_file_def)

lemma state_inv_init: "state_inv init_state"
  by (simp add: state_inv_def init_state_def)

lemma state_inv_set_file: "state_inv s \<Longrightarrow> state_inv (set_file g s)"
  by (simp add: state_inv_def set_file_def)

lemma append_current_bound:
  "state_inv s \<Longrightarrow> a \<in> set (append_current s) \<Longrightarrow> a < length (heap s)"
  by (auto simp: state_inv_def append_current_def split: option.splits)

lemma files_done_close:
  "files_done (close_file s) =
     (case current_file s of None \<Rightarrow> files_done s
      | Some f \<Rightarrow> files_done s @ [finalize_file (heap s) (f\<lparr>hunks := append_current s\<rparr>)])"
  by (simp add: close_file_def split: option.splits)

lemma heap_close: "heap (close_file s) = heap s"
  by (simp add: close_file_def split: option.splits)

lemma hunks_finalize: "hunks (finalize_file hp f) = hunks f"
  by (simp add: finalize_file_def)

lemma close_sums:
  assumes "state_inv s" and "f \<in> set (files_done (close_file s))"
  shows "sums_ok (heap s) f \<and> (\<forall>a \<in> set (hunks f). a < length (heap s))"
proof (cases "current_file s")
  case None
  then show ?thesis using assms by (simp add: files_done_close state_inv_def)
next
  case (Some g)
  from assms(2) Some
  consider "f \<in> set (files_done s)"
    | "f = finalize_file (heap s) (g\<lparr>hunks := append_current s\<rparr>)"
    by (auto simp: files_done_close)
  then show ?thesis
  proof cases
    case 1
    then show ?thesis using assms(1) by (simp add: state_inv_def)
  next
    case 2
    then show ?thesis
      using append_current_bound[OF assms(1)] by (simp add: sums_ok_finalize hunks_finalize)
  qed
qed

lemma state_inv_new_file:
  assumes "state_inv s"
  shows "state_inv ((close_file s)\<lparr>current_file := x, current_hunks := [],
           current_hunk := None, in_hunk := False\<rparr>)"
  using close_sums[OF assms] by (simp add: state_inv_def heap_close)

lemma hunk_header_line_cases:
  assumes "hunk_header_line s l = Inr s'"
  shows "s' = s\<lparr>current_hunks := append_current s, in_hunk := True\<rparr> \<or>
         (\<exists>h. h_lines h = [] \<and> h_additions h = 0 \<and> h_deletions h = 0 \<and>
           s' = s\<lparr>heap := heap s @ [h], current_hunks := append_current s,
                  current_hunk := Some (length (heap s)), in_hunk := True\<rparr>)"
proof (cases "match_hunk_header l")
  case None
  then show ?thesis using assms by (simp add: hunk_header_line_def)
next
  case (Some g)
  obtain g1 g2 g3 g4 g5 where g: "g = (g1, g2, g3, g4, g5)" by (cases g)
  from assms Some g obtain os oc ns nc where
    "s' = s\<lparr>heap := heap s @ [new_hunk os oc ns nc (strip g5)],
       current_hunks := append_current s,
       current_hunk := Some (length (heap s)), in_hunk := True\<rparr>"
    by (auto simp: hunk_header_line_def split: sum.splits)
  moreover have "h_lines (new_hunk os oc ns nc (strip g5)) = []"
    "h_additions (new_hunk os oc ns nc (strip g5)) = 0"
    "h_deletions (new_hunk os oc ns nc (strip g5)) = 0"
    by (simp_all add: new_hunk_def)
  ultimately show ?thesis by blast
qed

lemma state_inv_extend:
  assumes "state_inv s"
  shows "state_inv (s\<lparr>heap := heap s @ [h], current_hunks := append_current s,
           current_hunk := Some (length (heap s)), in_hunk := True\<rparr>)"
proof -
  have old: "\<And>f. f \<in> set (files_done s) \<Longrightarrow> \<forall>a \<in> set (hunks f). (heap s @ [h]) ! a = heap s ! a"
    using assms by (simp add: state_inv_def nth_append)
  have ok: "\<And>f. f \<in> set (files_done s) \<Longrightarrow> sums_ok (heap s @ [h]) f"
    using sums_ok_cong[OF old] assms by (simp add: state_inv_def)
  have lt: "\<And>f a. f \<in> set (files_done s) \<Longrightarrow> a \<in> set (hunks f) \<Longrightarrow> length (heap s) \<noteq> a"
    using assms by (auto simp: state_inv_def)
  have cur: "\<And>a. a \<in> set (append_current s) \<Longrightarrow> a < Suc (length (heap s))"
    using append_current_bound[OF assms] by (simp add: less_Suc_eq)
  have lt2: "\<And>f a. f \<in> set (files_done s) \<Longrightarrow> a \<in> set (hunks f) \<Longrightarrow> a < Suc (length (heap s))"
    using assms by (auto simp: state_inv_def less_Suc_eq)
  show ?thesis
    by (simp add: state_inv_def ok lt lt2 cur)
qed

lemma state_inv_hunk_header:
  assumes "state_inv s" and "hunk_header_line s l = Inr s'"
  shows "state_inv s'"
proof -
  have a: "state_inv (s\<lparr>current_hunks := append_current s, in_hunk := True\<rparr>)"
    using assms(1) append_current_bound[OF assms(1)] by (simp add: state_inv_def)
  from hunk_header_line_cases[OF assms(2)] a state_inv_extend[OF assms(1)]
  show ?thesis by auto
qed

lemma heap_add_line:
  "heap (add_line c t l da dd s) ! a = (if a = c then heap (add_line c t l da dd s) ! a else heap s ! a)"
  by (simp add: add_line_def)

lemma state_inv_add_line:
  assumes "state_inv s" and "current_hunk s = Some c"
  shows "state_inv (add_line c t l da dd s)"
proof -
  have old: "\<forall>f \<in> set (files_done s). \<forall>a \<in> set (hunks f). (heap (add_line c t l da dd s)) ! a = heap s ! a"
    using assms by (auto simp: state_inv_def add_line_def)
  have "\<forall>f \<in> set (files_done s). sums_ok (heap (add_line c t l da dd s)) f"
    using old sums_ok_cong assms(1) by (metis state_inv_def)
  moreover have "files_done (add_line c t l da dd s) = files_done s"
    "current_hunk (add_line c t l da dd s) = current_hunk s"
    "current_hunks (add_line c t l da dd s) = current_hunks s"
    "length (heap (add_line c t l da dd s)) = length (heap s)"
    by (simp_all add: add_line_def)
  ultimately show ?thesis using assms(1) by (simp add: state_inv_def)
qed

lemma state_inv_body:
  "state_inv s \<Longrightarrow> current_hunk s = Some c \<Longrightarrow> state_inv (body_line c s l)"
  by (simp add: body_line_def state_inv_add_line)

lemma parse_line_cases:
  assumes "parse_line s l = Inr s'"
  shows "(\<exists>x. s' = (close_file s)\<lparr>current_file := x, current_hunks := [],
            current_hunk := None, in_hunk := False\<rparr>) \<or>
         (\<exists>g. s' = set_file g s) \<or> s' = s \<or>
         hunk_header_line s l = Inr s' \<or>
         (\<exists>c. current_hunk s = Some c \<and> s' = body_line c s l)"
  using assms unfolding parse_line_def
  by (simp split: if_splits sum.splits option.splits; blast)

lemma state_inv_parse_line:
  assumes "state_inv s" and "parse_line s l = Inr s'"
  shows "state_inv s'"
  using parse_line_cases[OF assms(2)] state_inv_set_file[OF assms(1)]
    state_inv_new_file[OF assms(1)] state_inv_hunk_header[OF assms(1)]
    state_inv_body[OF assms(1)] assms(1)
  by blast

lemma state_inv_parse_lines:
  "state_inv s \<Longrightarrow> parse_lines s ls = Inr s' \<Longrightarrow> state_inv s'"
proof (induction ls arbitrary: s)
  case Nil
  then show ?case by simp
next
  case (Cons l ls)
  then show ?case by (auto split: sum.splits dest: state_inv_parse_line)
qed


lemma deref_simps:
  "additions (deref hp f) = additions f"
  "deletions (deref hp f) = deletions f"
  "hunks (deref hp f) = map (\<lambda>a. hp ! a) (hunks f)"
  by (simp_all add: deref_def)

lemma parse_diff_Inr:
  assumes "parse_diff diff_raw stat_raw = Inr r"
  obtains s where "parse_lines init_state (split_nl diff_raw) = Inr s"
    and "state_inv s"
    and "files r = map (deref (heap s)) (files_done (close_file s))"
    and "total_files r = int (length (files_done (close_file s)))"
    and "total_additions r = sum_list (map additions (files_done (close_file s)))"
    and "total_deletions r = sum_list (map deletions (files_done (close_file s)))"
proof -
  from assms obtain s where s: "parse_lines init_state (split_nl diff_raw) = Inr s"
    and f: "finish s stat_raw = Inr r"
    by (auto simp: parse_diff_def parse_diff_lines_def split: sum.splits)
  from f obtain summary where
    "r = \<lparr>files = map (deref (heap s)) (files_done (close_file s)),
          total_files = int (length (files_done (close_file s))),
          total_additions = sum_list (map additions (files_done (close_file s))),
          total_deletions = sum_list (map deletions (files_done (close_file s))),
          stat_summary = summary\<rparr>"
    by (auto simp: finish_def split: sum.splits)
  then have "files r = map (deref (heap s)) (files_done (close_file s))"
    "total_files r = int (length (files_done (close_file s)))"
    "total_additions r = sum_list (map additions (files_done (close_file s)))"
    "total_deletions r = sum_list (map deletions (files_done (close_file s)))"
    by simp_all
  with s state_inv_parse_lines[OF state_inv_init s] that show thesis by blast
qed

text \<open>
  Claim C1. Whenever \<open>parse_diff\<close> returns a result, every file of the result has
  \<open>additions\<close> equal to the sum of its hunks' \<open>additions\<close> and \<open>deletions\<close> equal to the
  sum of its hunks' \<open>deletions\<close>, and the totals of the result are the sums of the files'
  values. This holds for every input text, well-formed or not: the sums are over the hunk
  list as the caller reads it, a hunk that the list holds twice counting twice.
\<close>

theorem summation_invariant:
  assumes "parse_diff diff_raw stat_raw = Inr r"
  shows "(\<forall>f \<in> set (files r).
            additions f = sum_list (map h_additions (hunks f)) \<and>
            deletions f = sum_list (map h_deletions (hunks f))) \<and>
         total_additions r = sum_list (map additions (files r)) \<and>
         total_deletions r = sum_list (map deletions (files r))"
proof -
  from assms obtain s where inv: "state_inv s"
    and fs: "files r = map (deref (heap s)) (files_done (close_file s))"
    and ta: "total_additions r = sum_list (map additions (files_done (close_file s)))"
    and td: "total_deletions r = sum_list (map deletions (files_done (close_file s)))"
    by (rule parse_diff_Inr)
  have per_file: "additions f = sum_list (map h_additions (hunks f)) \<and>
      deletions f = sum_list (map h_deletions (hunks f))" if "f \<in> set (files r)" for f
  proof -
    from that fs obtain g where g: "g \<in> set (files_done (close_file s))"
      and f: "f = deref (heap s) g" by auto
    from close_sums[OF inv g] have "sums_ok (heap s) g" by simp
    then show ?thesis
      by (simp add: f deref_simps sums_ok_def comp_def)
  qed
  have "map additions (files r) = map additions (files_done (close_file s))"
    "map deletions (files r) = map deletions (files_done (close_file s))"
    by (simp_all add: fs deref_simps comp_def)
  with ta td per_file show ?thesis by simp
qed

lemma two_file_parse: "parse_diff two_file_diff [] = Inr two_file_result"
  by code_simp

text \<open>The invariant at the two-file diff.\<close>

theorem summation_invariant_witness:
  "parse_diff two_file_diff [] = Inr two_file_result \<and>
   additions (files two_file_result ! 1) =
     sum_list (map h_additions (hunks (files two_file_result ! 1))) \<and>
   deletions (files two_file_result ! 1) =
     sum_list (map h_deletions (hunks (files two_file_result ! 1))) \<and>
   total_additions two_file_result = sum_list (map additions (files two_file_result)) \<and>
   total_deletions two_file_result = sum_list (map deletions (files two_file_result))"
proof -
  have "files two_file_result ! 1 \<in> set (files two_file_result)"
    by (simp add: two_file_result_def)
  with summation_invariant[OF two_file_parse] two_file_parse show ?thesis by blast
qed

section \<open>Lines and texts\<close>

lemma split_nl_from_line:
  "NL \<notin> set a \<Longrightarrow> split_nl_from cur a = [rev cur @ a]"
  by (induction a arbitrary: cur) auto

lemma split_nl_from_append:
  "NL \<notin> set a \<Longrightarrow> split_nl_from cur (a @ NL # b) = (rev cur @ a) # split_nl_from [] b"
  by (induction a arbitrary: cur) auto

lemma split_nl_join:
  "ls \<noteq> [] \<Longrightarrow> \<forall>l \<in> set ls. NL \<notin> set l \<Longrightarrow> split_nl (join_nl ls) = ls"
proof (induction ls rule: join_nl.induct)
  case 1
  then show ?case by simp
next
  case (2 l)
  then show ?case by (simp add: split_nl_def split_nl_from_line)
next
  case (3 l m ls)
  then show ?case by (simp add: split_nl_def split_nl_from_append)
qed

lemma parse_diff_join:
  "ls \<noteq> [] \<Longrightarrow> \<forall>l \<in> set ls. NL \<notin> set l \<Longrightarrow>
   parse_diff (join_nl ls) stat_raw = parse_diff_lines ls stat_raw"
  by (simp add: parse_diff_def split_nl_join)

lemma parse_lines_append:
  "parse_lines s (xs @ ys) =
     (case parse_lines s xs of Inl e \<Rightarrow> Inl e | Inr s' \<Rightarrow> parse_lines s' ys)"
  by (induction xs arbitrary: s) (auto split: sum.splits)

section \<open>The summary line never raises\<close>

lemma splitlines_from_empty:
  "splitlines_from cur s = [] \<longleftrightarrow> cur = [] \<and> s = []"
  by (induction cur s rule: splitlines_from.induct) auto

lemma last_stat_line_total: "\<exists>x. last_stat_line stat_raw = Inr x"
  by (simp add: last_stat_line_def py_last_def splitlines_def splitlines_from_empty)

section \<open>File headers and rename lines\<close>

lemma file_of_header_fields:
  "status (file_of_header h) = ''modified''"
  "hunks (file_of_header h) = []"
  "\<not> is_binary (file_of_header h)"
  by (simp_all add: file_of_header_def new_file_def split: option.splits)

lemma file_header_line:
  "startswith h ''diff --git '' \<Longrightarrow>
   parse_line s h =
     Inr ((close_file s)\<lparr>current_file := Some (file_of_header h), current_hunks := [],
            current_hunk := None, in_hunk := False\<rparr>)"
  by (simp add: parse_line_def)




lemma closed_fields:
  "status (deref hp (finalize_file hp (f\<lparr>hunks := hs\<rparr>))) = status f"
  "old_path (deref hp (finalize_file hp (f\<lparr>hunks := hs\<rparr>))) = old_path f"
  "new_path (deref hp (finalize_file hp (f\<lparr>hunks := hs\<rparr>))) = new_path f"
  "is_binary (deref hp (finalize_file hp (f\<lparr>hunks := hs\<rparr>))) = is_binary f"
  "hunks (deref hp (finalize_file hp (f\<lparr>hunks := hs\<rparr>))) = map (\<lambda>a. hp ! a) hs"
  by (simp_all add: deref_def finalize_file_def)

lemma finish_files:
  "\<exists>r. finish s stat_raw = Inr r \<and>
       files r = map (deref (heap s)) (files_done (close_file s))"
proof -
  obtain x where "last_stat_line stat_raw = Inr x"
    using last_stat_line_total by blast
  then show ?thesis by (simp add: finish_def)
qed







section \<open>Body lines\<close>

lemma marker_not_header: "has_marker l \<Longrightarrow> \<not> is_header_line l"
  by (cases l) (auto simp: has_marker_def is_header_line_def header_prefixes_def)

lemma startswith_append: "startswith l (p @ q) \<Longrightarrow> startswith l p"
  by (induction l p rule: startswith.induct) auto

lemma path_line_marker: "is_path_line l \<Longrightarrow> has_marker l"
  using startswith_append[of l "''-''" "''--''"] startswith_append[of l "''+''" "''++''"]
  by (auto simp: is_path_line_def has_marker_def)

lemma header_free_line:
  "\<not> is_header_line l \<Longrightarrow>
   parse_line s l =
     (if in_hunk s \<and> current_hunk s \<noteq> None then Inr (body_line (the (current_hunk s)) s l)
      else Inr s)"
  by (simp add: parse_line_def is_header_line_def header_prefixes_def)

lemma body_line_ignored: "is_path_line l \<or> \<not> has_marker l \<Longrightarrow> body_line c s l = s"
  by (auto simp: body_line_def is_path_line_def has_marker_def)

lemma ignored_line:
  assumes "\<not> is_header_line l" and "is_path_line l \<or> \<not> has_marker l"
  shows "parse_line s l = Inr s"
  by (simp add: header_free_line[OF assms(1)] body_line_ignored[OF assms(2)])





lemma open_hunk_state_reached:
  "parse_lines init_state [''diff --git a/f b/f'', ''@@ -1 +1 @@''] = Inr open_hunk_state"
  by code_simp



text \<open>
  Claim C10. A line that starts with \<open>---\<close> or \<open>+++\<close>, and a body line that starts with none
  of the markers \<open>+\<close>, \<open>-\<close>, space and backslash (a line that is no header line either, the
  empty line among them), leaves the parser state as it is, inside an open hunk as in any
  other state: no hunk receives it and no count changes, and the result of \<open>parse_diff\<close> is
  the one of the input without that line.
\<close>

theorem unmarked_lines_discarded:
  assumes "is_path_line l \<or> (\<not> has_marker l \<and> \<not> is_header_line l)"
  shows "parse_line s l = Inr s \<and>
         parse_diff_lines (pre @ l # post) stat_raw = parse_diff_lines (pre @ post) stat_raw"
proof -
  have nh: "\<not> is_header_line l"
    using assms path_line_marker marker_not_header by blast
  have ig: "is_path_line l \<or> \<not> has_marker l"
    using assms by blast
  have step: "parse_line t l = Inr t" for t
    by (rule ignored_line[OF nh ig])
  have skip: "parse_lines t (l # post) = parse_lines t post" for t
    by (simp add: step)
  have "parse_lines init_state (pre @ l # post) = parse_lines init_state (pre @ post)"
    by (simp only: parse_lines_append skip)
  then show ?thesis
    using step by (simp add: parse_diff_lines_def)
qed

text \<open>An empty line and the deletion of a line \<open>-- note\<close>, in the hunk opened by
  \<open>@@ -1 +1 @@\<close>.\<close>

theorem unmarked_lines_discarded_witness:
  "(is_path_line ''--- note'' \<or> (\<not> has_marker ''--- note'' \<and> \<not> is_header_line ''--- note'')) \<and>
   parse_line open_hunk_state ''--- note'' = Inr open_hunk_state \<and>
   (is_path_line [] \<or> (\<not> has_marker [] \<and> \<not> is_header_line [])) \<and>
   parse_line open_hunk_state [] = Inr open_hunk_state"
proof -
  have a: "is_path_line ''--- note'' \<or> (\<not> has_marker ''--- note'' \<and> \<not> is_header_line ''--- note'')"
    by (simp add: is_path_line_def)
  have b: "is_path_line [] \<or> (\<not> has_marker [] \<and> \<not> is_header_line [])"
    by (simp add: has_marker_def is_header_line_def header_prefixes_def)
  from unmarked_lines_discarded[OF a, of open_hunk_state]
    unmarked_lines_discarded[OF b, of open_hunk_state] a b
  show ?thesis by blast
qed

section \<open>Hunk headers\<close>

lemma startswith_self: "startswith (p @ r) p"
  by (induction p) simp_all

lemma strip_prefix_append: "strip_prefix p (p @ r) = Some r"
  by (simp add: strip_prefix_def startswith_self)

lemma span_digits_run:
  assumes "ds \<noteq> []" and "list_all is_digit ds" and "r = [] \<or> \<not> is_digit (hd r)"
  shows "span_digits (ds @ r) = Some (ds, r)"
proof -
  have all: "\<forall>x \<in> set ds. is_digit x"
    using assms(2) by (simp add: list_all_iff)
  have stop: "takeWhile is_digit r = []" "dropWhile is_digit r = r"
    using assms(3) by (cases r; simp)+
  have "takeWhile is_digit (ds @ r) = ds" "dropWhile is_digit (ds @ r) = r"
    using all stop by simp_all
  then show ?thesis
    using assms(1) by (simp add: span_digits_def)
qed

lemma not_digit: "\<not> is_digit CHR '' ''" "\<not> is_digit CHR '',''"
  by (simp_all add: is_digit_def)

lemma span_number:
  "is_digits ds \<Longrightarrow> span_digits (ds @ CHR '' '' # r) = Some (ds, CHR '' '' # r)"
  "is_digits ds \<Longrightarrow> span_digits (ds @ CHR '','' # r) = Some (ds, CHR '','' # r)"
  by (simp_all add: is_digits_def span_digits_run not_digit)

lemma opt_count_text:
  assumes "is_opt_digits b"
  shows "opt_count ((case b of None \<Rightarrow> [] | Some ds \<Rightarrow> CHR '','' # ds) @ CHR '' '' # r)
           = (b, CHR '' '' # r)"
proof (cases b)
  case None
  then show ?thesis by (simp add: opt_count_def)
next
  case (Some ds)
  then have "is_digits ds" using assms by (simp add: is_opt_digits_def)
  then show ?thesis using Some by (simp add: opt_count_def span_number)
qed

lemma span_range:
  assumes "is_digits a" and "is_opt_digits b"
  shows "span_digits (range_text a b @ CHR '' '' # r) =
           Some (a, (case b of None \<Rightarrow> [] | Some ds \<Rightarrow> CHR '','' # ds) @ CHR '' '' # r)"
  using assms(1) by (cases b) (simp_all add: range_text_def span_number)

lemma match_hunk_header_text:
  assumes "is_digits a" and "is_opt_digits b" and "is_digits c" and "is_opt_digits d"
  shows "match_hunk_header (hunk_header_text a b c d rest) = Some (a, b, c, d, rest)"
proof -
  have 1: "strip_prefix ''@@ -'' (hunk_header_text a b c d rest) =
      Some (range_text a b @ CHR '' '' # (''+'' @ range_text c d @ CHR '' '' # (''@@'' @ rest)))"
    unfolding hunk_header_text_def using strip_prefix_append[of "''@@ -''"] by simp
  have 2: "strip_prefix '' +'' (CHR '' '' # (''+'' @ range_text c d @ CHR '' '' # (''@@'' @ rest))) =
      Some (range_text c d @ CHR '' '' # (''@@'' @ rest))"
    using strip_prefix_append[of "'' +''"] by simp
  have 3: "strip_prefix '' @@'' (CHR '' '' # (''@@'' @ rest)) = Some rest"
    using strip_prefix_append[of "'' @@''"] by simp
  show ?thesis
    unfolding match_hunk_header_def
    by (simp only: 1 2 3 span_range[OF assms(1,2)] span_range[OF assms(3,4)]
        opt_count_text[OF assms(2)] opt_count_text[OF assms(4)] option.case prod.case)
qed

lemma number_digits: "is_number ds \<Longrightarrow> is_digits ds"
  by (simp add: is_number_def)

lemma opt_number_digits: "is_opt_number b \<Longrightarrow> is_opt_digits b"
  by (cases b) (simp_all add: is_opt_number_def is_opt_digits_def number_digits)

lemma py_int_number: "is_number ds \<Longrightarrow> py_int ds = Inr (dec_value ds)"
  by (simp add: is_number_def is_digits_def py_int_def)

lemma count_or_1_opt: "is_opt_number b \<Longrightarrow> count_or_1 b = Inr (count_of b)"
  by (cases b) (simp_all add: is_opt_number_def count_or_1_def count_of_def py_int_number)

lemma hunk_header_text_line:
  assumes "is_number a" and "is_opt_number b" and "is_number c" and "is_opt_number d"
  shows "hunk_header_line s (hunk_header_text a b c d rest) =
     Inr (s\<lparr>heap := heap s @ [new_hunk (dec_value a) (count_of b) (dec_value c) (count_of d)
                                 (strip rest)],
            current_hunks := append_current s,
            current_hunk := Some (length (heap s)),
            in_hunk := True\<rparr>)"
  by (simp add: hunk_header_line_def py_int_number assms count_or_1_opt
      match_hunk_header_text[OF number_digits[OF assms(1)] opt_number_digits[OF assms(2)]
        number_digits[OF assms(3)] opt_number_digits[OF assms(4)]])

lemma hunk_header_text_branch:
  "current_file s \<noteq> None \<Longrightarrow>
   parse_line s (hunk_header_text a b c d rest) =
     hunk_header_line s (hunk_header_text a b c d rest)"
  by (simp add: parse_line_def hunk_header_text_def)

lemma file_open_state_reached:
  "parse_lines init_state [''diff --git a/f b/f''] = Inr file_open_state"
  by code_simp

lemma explicit_counts_parse:
  "parse_diff (join_nl [''diff --git a/f b/f'', ''@@ -1,1 +1,1 @@'']) [] = Inr one_hunk_result"
  by code_simp

lemma omitted_counts_parse:
  "parse_diff (join_nl [''diff --git a/f b/f'', ''@@ -1 +1 @@'']) [] = Inr one_hunk_result"
  by code_simp

text \<open>
  Claim C6. In a file section, a hunk header \<open>@@ -a[,b] +c[,d] @@rest\<close> whose numbers
  \<open>int\<close> converts opens a hunk with \<open>old_start = a\<close> and \<open>new_start = c\<close>, with \<open>old_count = b\<close>
  when the first range states \<open>b\<close> and 1 when it omits it, and likewise \<open>new_count\<close> for the
  second range. So \<open>parse_diff\<close> gives the headers \<open>@@ -1,1 +1,1 @@\<close> and \<open>@@ -1 +1 @@\<close> the
  same result, a hunk with \<open>old_count\<close> and \<open>new_count\<close> 1.
\<close>

theorem omitted_count_is_one:
  assumes "is_number a" and "is_opt_number b" and "is_number c" and "is_opt_number d"
    and "current_file s \<noteq> None"
  shows "(\<exists>s' h. parse_line s (hunk_header_text a b c d rest) = Inr s' \<and>
            heap s' = heap s @ [h] \<and> current_hunk s' = Some (length (heap s)) \<and>
            old_start h = dec_value a \<and> new_start h = dec_value c \<and>
            old_count h = (case b of None \<Rightarrow> 1 | Some ds \<Rightarrow> dec_value ds) \<and>
            new_count h = (case d of None \<Rightarrow> 1 | Some ds \<Rightarrow> dec_value ds)) \<and>
         parse_diff (join_nl [''diff --git a/f b/f'', ''@@ -1,1 +1,1 @@'']) [] =
           parse_diff (join_nl [''diff --git a/f b/f'', ''@@ -1 +1 @@'']) [] \<and>
         parse_diff (join_nl [''diff --git a/f b/f'', ''@@ -1 +1 @@'']) [] = Inr one_hunk_result \<and>
         map old_count (hunks (hd (files one_hunk_result))) = [1] \<and>
         map new_count (hunks (hd (files one_hunk_result))) = [1]"
proof -
  let ?h = "new_hunk (dec_value a) (count_of b) (dec_value c) (count_of d) (strip rest)"
  let ?s' = "s\<lparr>heap := heap s @ [?h], current_hunks := append_current s,
      current_hunk := Some (length (heap s)), in_hunk := True\<rparr>"
  have "parse_line s (hunk_header_text a b c d rest) = Inr ?s'"
    using hunk_header_text_branch[OF assms(5)] hunk_header_text_line[OF assms(1-4)] by simp
  moreover have "heap ?s' = heap s @ [?h]" "current_hunk ?s' = Some (length (heap s))"
    by simp_all
  moreover have "old_start ?h = dec_value a" "new_start ?h = dec_value c"
    "old_count ?h = (case b of None \<Rightarrow> 1 | Some ds \<Rightarrow> dec_value ds)"
    "new_count ?h = (case d of None \<Rightarrow> 1 | Some ds \<Rightarrow> dec_value ds)"
    by (simp_all add: new_hunk_def count_of_def)
  ultimately have general: "\<exists>s' h. parse_line s (hunk_header_text a b c d rest) = Inr s' \<and>
      heap s' = heap s @ [h] \<and> current_hunk s' = Some (length (heap s)) \<and>
      old_start h = dec_value a \<and> new_start h = dec_value c \<and>
      old_count h = (case b of None \<Rightarrow> 1 | Some ds \<Rightarrow> dec_value ds) \<and>
      new_count h = (case d of None \<Rightarrow> 1 | Some ds \<Rightarrow> dec_value ds)"
    by blast
  have "map old_count (hunks (hd (files one_hunk_result))) = [1]"
    "map new_count (hunks (hd (files one_hunk_result))) = [1]"
    by (simp_all add: one_hunk_result_def new_hunk_def)
  with general show ?thesis
    by (simp only: explicit_counts_parse omitted_counts_parse simp_thms)
qed

text \<open>The headers \<open>@@ -1,1 +1,1 @@\<close> and \<open>@@ -1 +1 @@\<close> after the line
  \<open>diff --git a/f b/f\<close>.\<close>

theorem omitted_count_is_one_witness:
  "is_number ''1'' \<and> is_opt_number (Some ''1'') \<and> is_opt_number None \<and>
   current_file file_open_state \<noteq> None \<and>
   hunk_header_text ''1'' (Some ''1'') ''1'' (Some ''1'') [] = ''@@ -1,1 +1,1 @@'' \<and>
   hunk_header_text ''1'' None ''1'' None [] = ''@@ -1 +1 @@'' \<and>
   (\<exists>s' h. parse_line file_open_state ''@@ -1,1 +1,1 @@'' = Inr s' \<and> heap s' = [h] \<and>
      old_count h = 1 \<and> new_count h = 1) \<and>
   (\<exists>s' h. parse_line file_open_state ''@@ -1 +1 @@'' = Inr s' \<and> heap s' = [h] \<and>
      old_count h = 1 \<and> new_count h = 1)"
proof -
  have n: "is_number ''1''" "is_opt_number (Some ''1'')" "is_opt_number None"
    by (simp_all add: is_number_def is_digits_def is_opt_number_def is_digit_def
        int_max_str_digits_def)
  have f: "current_file file_open_state \<noteq> None"
    by (simp add: file_open_state_def)
  have t: "hunk_header_text ''1'' (Some ''1'') ''1'' (Some ''1'') [] = ''@@ -1,1 +1,1 @@''"
    "hunk_header_text ''1'' None ''1'' None [] = ''@@ -1 +1 @@''"
    by (simp_all add: hunk_header_text_def range_text_def)
  have v: "dec_value ''1'' = 1" "heap file_open_state = []"
    by (simp_all add: dec_value_def digit_val_def file_open_state_def)
  from omitted_count_is_one[OF n(1) n(2) n(1) n(2) f, of "[]", THEN conjunct1, unfolded t]
  have a: "\<exists>s' h. parse_line file_open_state ''@@ -1,1 +1,1 @@'' = Inr s' \<and> heap s' = [h] \<and>
      old_count h = 1 \<and> new_count h = 1"
    by (simp add: v; blast)
  from omitted_count_is_one[OF n(1) n(3) n(1) n(3) f, of "[]", THEN conjunct1, unfolded t]
  have b: "\<exists>s' h. parse_line file_open_state ''@@ -1 +1 @@'' = Inr s' \<and> heap s' = [h] \<and>
      old_count h = 1 \<and> new_count h = 1"
    by (simp add: v; blast)
  from n f t a b show ?thesis by (intro conjI)
qed

section \<open>A malformed hunk header\<close>

text \<open>
  When no hunk is open, a hunk header that does not match opens none, and the lines after
  it that are no header lines leave the state as it is: they are dropped.
\<close>

lemma malformed_header_no_open_hunk:
  assumes "startswith l ''@@''" and "match_hunk_header l = None"
    and "current_file s \<noteq> None" and "current_hunk s = None"
    and "\<forall>b \<in> set body. \<not> is_header_line b"
  shows "parse_lines s (l # body) = Inr (s\<lparr>in_hunk := True\<rparr>)"
proof -
  have "\<not> startswith l ''diff --git ''" "\<not> startswith l ''new file mode''"
    "\<not> startswith l ''deleted file mode''" "\<not> startswith l ''old mode''"
    "\<not> startswith l ''new mode''" "\<not> startswith l ''Binary files''"
    "\<not> startswith l ''similarity index''" "\<not> startswith l ''rename from ''"
    "\<not> startswith l ''rename to ''" "\<not> startswith l ''copy from ''"
    using assms(1) by (cases l; simp)+
  then have "parse_line s l = hunk_header_line s l"
    using assms(1,3) by (simp add: parse_line_def)
  then have step: "parse_line s l = Inr (s\<lparr>in_hunk := True\<rparr>)"
    using assms(2,4) by (simp add: hunk_header_line_def append_current_def)
  have "parse_lines t body = Inr t" if "current_hunk t = None" for t
    using assms(5) that
  proof (induction body)
    case Nil
    then show ?case by simp
  next
    case (Cons b body)
    then show ?case by (simp add: header_free_line)
  qed
  then show ?thesis
    using step assms(4) by simp
qed

text \<open>
  Claim C2 fails on the code when a hunk is open: the header that does not match leaves
  \<open>current_hunk\<close> on the previous hunk, which was just appended to the file's hunks. The
  line \<open>+b\<close> after it goes to that hunk, and the end of the input appends the hunk again:
  the file has the hunk twice, with the lines \<open>a\<close> and \<open>b\<close>, and 4 additions.
\<close>

theorem malformed_header_after_hunk:
  "parse_diff malformed_header_diff [] = Inr malformed_header_result \<and>
   map (map content \<circ> h_lines) (hunks (hd (files malformed_header_result))) =
     [[''a'', ''b''], [''a'', ''b'']] \<and>
   total_additions malformed_header_result = 4"
proof -
  have "parse_diff malformed_header_diff [] = Inr malformed_header_result"
    by code_simp
  then show ?thesis
    by (simp add: malformed_header_result_def)
qed

section \<open>A number that \<open>int\<close> refuses\<close>

lemma huge_number_digits: "is_digits huge_number" "length huge_number > int_max_str_digits"
  by (simp_all add: huge_number_def is_digits_def is_digit_def list_all_iff
      int_max_str_digits_def)

lemma long_number_raises:
  assumes "is_digits a" and "length a > int_max_str_digits" and "is_opt_digits b"
    and "is_digits c" and "is_opt_digits d" and "current_file s \<noteq> None"
  shows "parse_line s (hunk_header_text a b c d rest) = Inl ValueError"
proof -
  have "py_int a = Inl ValueError"
    using assms(2) by (simp add: py_int_def)
  then show ?thesis
    by (simp add: hunk_header_text_branch[OF assms(6)] hunk_header_line_def
        match_hunk_header_text[OF assms(1,3,4,5)])
qed

text \<open>
  Claim C4 fails on the code: after a file-pair header, a hunk header whose first number
  has 4301 digits matches the pattern, and \<open>int\<close> raises \<open>ValueError\<close> on the number.
\<close>

theorem huge_number_raises:
  "parse_diff huge_header_diff [] = Inl ValueError"
proof -
  let ?l = "hunk_header_text huge_number None ''1'' None []"
  have one: "is_digits ''1''" "is_opt_digits None"
    by (simp_all add: is_digits_def is_opt_digits_def is_digit_def)
  have "NL \<notin> set ?l"
    by (auto simp: hunk_header_text_def range_text_def huge_number_def)
  then have "parse_diff huge_header_diff [] =
      parse_diff_lines [''diff --git a/f b/f'', ?l] []"
    unfolding huge_header_diff_def by (intro parse_diff_join) auto
  moreover have "parse_line file_open_state ?l = Inl ValueError"
    by (rule long_number_raises[OF huge_number_digits one(2) one(1) one(2)])
      (simp add: file_open_state_def)
  moreover have "parse_line init_state ''diff --git a/f b/f'' = Inr file_open_state"
    using file_open_state_reached by (simp split: sum.splits)
  ultimately show ?thesis
    by (simp add: parse_diff_lines_def)
qed

section \<open>Binary files\<close>

lemma binary_line:
  assumes "startswith l ''Binary files''" and "current_file s \<noteq> None"
  shows "parse_line s l = Inr (set_file (\<lambda>f. f\<lparr>is_binary := True\<rparr>) s)"
proof -
  have "\<not> startswith l ''diff --git ''" "\<not> startswith l ''new file mode''"
    "\<not> startswith l ''deleted file mode''" "\<not> startswith l ''old mode''"
    "\<not> startswith l ''new mode''"
    using assms(1) by (cases l; simp)+
  then show ?thesis
    using assms by (simp add: parse_line_def)
qed

lemma hunkless_step:
  assumes "hunkless b fin s" and "\<not> startswith l ''@@''" and "\<not> startswith l ''diff --git ''"
    and "parse_line s l = Inr s'"
  shows "hunkless (b \<or> startswith l ''Binary files'') fin s'"
proof -
  from assms(1) obtain f where f: "current_file s = Some f" "b \<longrightarrow> is_binary f"
    "files_done s = fin" "current_hunks s = []" "current_hunk s = None"
    by (auto simp: hunkless_def split: option.splits)
  show ?thesis
  proof (cases "startswith l ''Binary files''")
    case True
    then have "s' = set_file (\<lambda>f. f\<lparr>is_binary := True\<rparr>) s"
      using binary_line[of l s] assms(4) f(1) by simp
    then show ?thesis
      using f by (simp add: hunkless_def set_file_def)
  next
    case False
    then show ?thesis
      using assms(2-4) f
      by (auto simp: parse_line_def hunkless_def set_file_def
          split: if_splits sum.splits option.splits)
  qed
qed

lemma hunkless_steps:
  assumes "hunkless b fin s"
    and "\<forall>l \<in> set ls. \<not> startswith l ''@@'' \<and> \<not> startswith l ''diff --git ''"
    and "parse_lines s ls = Inr s'"
  shows "hunkless (b \<or> list_ex (\<lambda>l. startswith l ''Binary files'') ls) fin s'"
  using assms
proof (induction ls arbitrary: s b)
  case Nil
  then show ?case by simp
next
  case (Cons l ls)
  from Cons.prems(3) obtain s1 where s1: "parse_line s l = Inr s1" "parse_lines s1 ls = Inr s'"
    by (auto split: sum.splits)
  have "hunkless (b \<or> startswith l ''Binary files'') fin s1"
    using hunkless_step[OF Cons.prems(1) _ _ s1(1)] Cons.prems(2) by simp
  from Cons.IH[OF this _ s1(2)] Cons.prems(2) show ?case
    by (simp add: disj_assoc)
qed

lemma binary_section_parse:
  "parse_diff (join_nl binary_section_lines) [] = Inr binary_section_result"
  "parse_diff_lines binary_section_lines [] = Inr binary_section_result"
  by code_simp+

text \<open>
  Claim C9. A file section, that is a file-pair header \<open>h\<close> and the lines \<open>ls\<close> up to the
  end of the input, with no hunk header and no further file-pair header among \<open>ls\<close> and
  with a line that starts with \<open>Binary files\<close> (such as
  \<open>Binary files a/x.png and b/x.png differ\<close>), parses to a file with \<open>is_binary\<close> true and
  no hunks, whatever sections \<open>pre\<close> come before it.
\<close>

theorem binary_section:
  assumes "startswith h ''diff --git ''"
    and "\<forall>l \<in> set ls. \<not> startswith l ''@@'' \<and> \<not> startswith l ''diff --git ''"
    and "\<exists>l \<in> set ls. startswith l ''Binary files''"
    and "parse_diff_lines (pre @ h # ls) stat_raw = Inr r"
  shows "files r \<noteq> [] \<and> is_binary (last (files r)) \<and> hunks (last (files r)) = []"
proof -
  from assms(4) obtain s where s: "parse_lines init_state (pre @ h # ls) = Inr s"
    and fin: "finish s stat_raw = Inr r"
    by (auto simp: parse_diff_lines_def split: sum.splits)
  from s obtain s0 where s0: "parse_lines s0 (h # ls) = Inr s"
    by (auto simp: parse_lines_append split: sum.splits)
  let ?s1 = "(close_file s0)\<lparr>current_file := Some (file_of_header h), current_hunks := [],
      current_hunk := None, in_hunk := False\<rparr>"
  have s1: "parse_lines ?s1 ls = Inr s"
    using s0 by (simp add: file_header_line[OF assms(1)])
  have "hunkless False (files_done (close_file s0)) ?s1"
    by (simp add: hunkless_def)
  from hunkless_steps[OF this assms(2) s1] assms(3)
  have "hunkless True (files_done (close_file s0)) s"
    by (simp add: list_ex_iff)
  then obtain f where f: "current_file s = Some f" "is_binary f" "current_hunks s = []"
    "current_hunk s = None"
    by (auto simp: hunkless_def split: option.splits)
  have "append_current s = []"
    using f by (simp add: append_current_def)
  then have fd: "files_done (close_file s) =
      files_done s @ [finalize_file (heap s) (f\<lparr>hunks := []\<rparr>)]"
    using f by (simp add: files_done_close)
  from finish_files[of s stat_raw] fin
  have "files r = map (deref (heap s)) (files_done (close_file s))"
    by auto
  then have "files r \<noteq> []"
    "last (files r) = deref (heap s) (finalize_file (heap s) (f\<lparr>hunks := []\<rparr>))"
    by (simp_all add: fd)
  then show ?thesis
    using f(2) by (simp add: closed_fields)
qed

text \<open>The section \<open>Binary files a/x.png and b/x.png differ\<close> of the specification.\<close>

theorem binary_section_witness:
  "startswith ''diff --git a/x.png b/x.png'' ''diff --git '' \<and>
   list_all (\<lambda>l. \<not> startswith l ''@@'' \<and> \<not> startswith l ''diff --git '')
     [''Binary files a/x.png and b/x.png differ''] \<and>
   list_ex (\<lambda>l. startswith l ''Binary files'') [''Binary files a/x.png and b/x.png differ''] \<and>
   parse_diff_lines binary_section_lines [] = Inr binary_section_result \<and>
   parse_diff (join_nl binary_section_lines) [] = Inr binary_section_result \<and>
   files binary_section_result \<noteq> [] \<and>
   is_binary (last (files binary_section_result)) \<and>
   hunks (last (files binary_section_result)) = []"
proof -
  have h: "startswith ''diff --git a/x.png b/x.png'' ''diff --git ''"
    by simp
  have a: "\<forall>l \<in> set [''Binary files a/x.png and b/x.png differ''].
      \<not> startswith l ''@@'' \<and> \<not> startswith l ''diff --git ''"
    by simp
  have b: "\<exists>l \<in> set [''Binary files a/x.png and b/x.png differ'']. startswith l ''Binary files''"
    by simp
  have p: "parse_diff_lines ([] @ ''diff --git a/x.png b/x.png'' #
      [''Binary files a/x.png and b/x.png differ'']) [] = Inr binary_section_result"
    using binary_section_parse(2) by (simp add: binary_section_lines_def)
  from binary_section[OF h a b p] h binary_section_parse show ?thesis
    by simp
qed

section \<open>The command runner\<close>

text \<open>
  Claim C5 as stated fails: \<open>git\<close> exits with code 1 after writing to its standard output,
  the caller has not asked for a check, and \<open>run_git\<close> returns what was written, not the
  empty string.
\<close>

theorem nonzero_exit_counterexample:
  "run_git False (Exited 1 ''partial output'') = Inr ''partial output''"
  by (simp add: run_git_def subprocess_run_def)

text \<open>
  Claim C5, as amended. \<open>run_git\<close> returns a string and raises nothing, except that it
  raises \<open>RuntimeError\<close> exactly when the launch raises \<open>FileNotFoundError\<close>. It returns the
  empty string on a timeout and on any other exception. When the process exits, it
  returns the captured standard output, whatever the return code, if no check was asked
  for; with a check it returns the output on return code 0 and the empty string on any
  other return code.
\<close>

theorem run_git_outcomes:
  "run_git check TimedOut = Inr [] \<and>
   run_git check Failed = Inr [] \<and>
   run_git check NoSuchFile = Inl RuntimeError \<and>
   run_git False (Exited rc out) = Inr out \<and>
   run_git True (Exited rc out) = Inr (if rc = 0 then out else []) \<and>
   ((\<exists>e. run_git check p = Inl e) \<longleftrightarrow> p = NoSuchFile)"
  by (cases p) (simp_all add: run_git_def subprocess_run_def)

section \<open>Relative times\<close>







section \<open>Where the parser can raise\<close>

text \<open>
  The only exception of \<open>parse_diff\<close> is the \<open>ValueError\<close> of \<open>int\<close> on a number of more
  than 4300 digits: \<open>split()[-1]\<close> is taken of lines with a word in them, the summary line
  of a text that has a line, and \<open>int\<close> of runs of digits.
\<close>

lemma split_ws_from_nonempty:
  "cur \<noteq> [] \<or> (\<exists>c \<in> set s. \<not> isspace c) \<Longrightarrow> split_ws_from cur s \<noteq> []"
  by (induction s arbitrary: cur) auto

lemma startswith_first: "startswith l (c # p) \<Longrightarrow> c \<in> set l"
  by (cases l) auto

lemma mode_word:
  assumes "startswith l (c # p)" and "\<not> isspace c"
  shows "\<exists>m. py_last (split_ws l) = Inr m"
proof -
  have "split_ws l \<noteq> []"
    unfolding split_ws_def
    using startswith_first[OF assms(1)] assms(2) by (intro split_ws_from_nonempty) blast
  then show ?thesis by (simp add: py_last_def)
qed

lemma py_int_digits:
  assumes "is_digits ds"
  shows "py_int ds = (if length ds > int_max_str_digits then Inl ValueError
                      else Inr (dec_value ds))"
  using assms by (simp add: py_int_def is_digits_def)

lemma count_or_1_digits:
  assumes "is_opt_digits g"
  shows "count_or_1 g = Inl ValueError \<and> (\<exists>ds. g = Some ds \<and> length ds > int_max_str_digits)
         \<or> (\<exists>n. count_or_1 g = Inr n)"
  using assms
  by (cases g) (simp_all add: count_or_1_def is_opt_digits_def py_int_digits)

lemma span_digits_Some:
  assumes "span_digits s = Some (ds, r)"
  shows "is_digits ds \<and> ds @ r = s"
proof -
  from assms have ds: "ds = takeWhile is_digit s" "r = dropWhile is_digit s" "ds \<noteq> []"
    by (auto simp: span_digits_def split: if_splits)
  have "list_all is_digit (takeWhile is_digit s)"
    by (simp add: list_all_iff) (meson set_takeWhileD)
  then show ?thesis
    using ds by (simp add: is_digits_def)
qed

lemma opt_count_Some:
  assumes "opt_count s = (g, r)"
  shows "is_opt_digits g \<and> length r \<le> length s \<and>
         (\<forall>ds. g = Some ds \<longrightarrow> length ds \<le> length s)"
proof (cases s)
  case Nil
  then show ?thesis using assms by (simp add: opt_count_def is_opt_digits_def)
next
  case (Cons c t)
  show ?thesis
  proof (cases "c = CHR '','' \<and> span_digits t \<noteq> None")
    case True
    then obtain ds r' where sp: "span_digits t = Some (ds, r')" by auto
    then have "g = Some ds" "r = r'"
      using assms Cons True by (simp_all add: opt_count_def)
    moreover from span_digits_Some[OF sp] have "is_digits ds" "length ds + length r' = length t"
      by (auto simp flip: length_append)
    ultimately show ?thesis
      using Cons by (simp add: is_opt_digits_def)
  next
    case False
    then have "g = None" "r = s"
      using assms Cons by (auto simp: opt_count_def split: option.splits if_splits)
    then show ?thesis by (simp add: is_opt_digits_def)
  qed
qed

lemma strip_prefix_Some: "strip_prefix p s = Some r \<Longrightarrow> length r \<le> length s"
  by (auto simp: strip_prefix_def split: if_splits)

lemma match_hunk_header_groups:
  assumes "match_hunk_header l = Some (g1, g2, g3, g4, g5)"
  shows "is_digits g1 \<and> is_opt_digits g2 \<and> is_digits g3 \<and> is_opt_digits g4 \<and>
         length g1 \<le> length l \<and> length g3 \<le> length l \<and>
         (\<forall>ds. g2 = Some ds \<longrightarrow> length ds \<le> length l) \<and>
         (\<forall>ds. g4 = Some ds \<longrightarrow> length ds \<le> length l)"
proof -
  from assms obtain s1 s2 s3 s4 s5 s6 where
    p1: "strip_prefix ''@@ -'' l = Some s1" and d1: "span_digits s1 = Some (g1, s2)" and
    o1: "opt_count s2 = (g2, s3)" and p2: "strip_prefix '' +'' s3 = Some s4" and
    d2: "span_digits s4 = Some (g3, s5)" and o2: "opt_count s5 = (g4, s6)"
    by (auto simp: match_hunk_header_def split: option.splits prod.splits)
  from span_digits_Some[OF d1] have a: "is_digits g1" "length g1 + length s2 = length s1"
    by (auto simp flip: length_append)
  from span_digits_Some[OF d2] have b: "is_digits g3" "length g3 + length s5 = length s4"
    by (auto simp flip: length_append)
  note c = opt_count_Some[OF o1] opt_count_Some[OF o2]
  note e = strip_prefix_Some[OF p1] strip_prefix_Some[OF p2]
  have "length s3 \<le> length l" using a(2) c(1) e(1) by linarith
  then have "length s5 \<le> length l" using b(2) e(2) by linarith
  then show ?thesis
    using a b c e by auto
qed

lemma hunk_header_line_raises:
  "hunk_header_line s l = Inl e \<Longrightarrow> e = ValueError \<and> length l > int_max_str_digits"
proof -
  assume err: "hunk_header_line s l = Inl e"
  then obtain g1 g2 g3 g4 g5 where m: "match_hunk_header l = Some (g1, g2, g3, g4, g5)"
    by (cases "match_hunk_header l") (auto simp: hunk_header_line_def)
  note g = match_hunk_header_groups[OF m]
  from g have i1: "py_int g1 = Inl ValueError \<and> length g1 > int_max_str_digits \<or>
      (\<exists>n. py_int g1 = Inr n)"
    and i3: "py_int g3 = Inl ValueError \<and> length g3 > int_max_str_digits \<or>
      (\<exists>n. py_int g3 = Inr n)"
    by (simp_all add: py_int_digits)
  from g have c2: "count_or_1 g2 = Inl ValueError \<and>
      (\<exists>ds. g2 = Some ds \<and> length ds > int_max_str_digits) \<or> (\<exists>n. count_or_1 g2 = Inr n)"
    and c4: "count_or_1 g4 = Inl ValueError \<and>
      (\<exists>ds. g4 = Some ds \<and> length ds > int_max_str_digits) \<or> (\<exists>n. count_or_1 g4 = Inr n)"
    by (simp_all add: count_or_1_digits)
  have len: "length g1 \<le> length l" "length g3 \<le> length l"
    "\<And>ds. g2 = Some ds \<Longrightarrow> length ds \<le> length l"
    "\<And>ds. g4 = Some ds \<Longrightarrow> length ds \<le> length l"
    using g by auto
  from err m have "py_int g1 = Inl e \<or> count_or_1 g2 = Inl e \<or> py_int g3 = Inl e \<or>
      count_or_1 g4 = Inl e"
    by (auto simp: hunk_header_line_def split: sum.splits)
  then show ?thesis
    using i1 i3 c2 c4 len by (elim disjE) (auto dest: le_trans[rotated] simp: not_le)
qed

lemma search_percent_Some:
  "search_percent l = Some ds \<Longrightarrow> is_digits ds \<and> length ds \<le> length l"
proof (induction l)
  case Nil
  then show ?case by simp
next
  case (Cons c cs)
  show ?case
  proof (cases "span_digits (c # cs)")
    case None
    then show ?thesis using Cons by auto
  next
    case (Some a)
    obtain g r where a: "a = (g, r)" by (cases a)
    from span_digits_Some[OF Some[unfolded a]]
    have "is_digits g" "length g + length r = length (c # cs)"
      by (auto simp flip: length_append)
    then show ?thesis
      using Cons Some a by (auto split: if_splits)
  qed
qed

lemma parse_line_raises:
  assumes "parse_line s l = Inl e"
  shows "e = ValueError \<and> length l > int_max_str_digits"
proof -
  have w: "\<not> isspace CHR ''n''" "\<not> isspace CHR ''o''"
    by (simp_all add: isspace_def)
  have no_mode: "\<And>c p. startswith l (c # p) \<Longrightarrow> \<not> isspace c \<Longrightarrow>
      py_last (split_ws l) \<noteq> Inl e"
    using mode_word by fastforce
  have sim: "(case search_percent l of None \<Rightarrow> Inr s
      | Some ds \<Rightarrow> (case py_int ds of Inl e \<Rightarrow> Inl e
          | Inr n \<Rightarrow> Inr (set_file (\<lambda>f. f\<lparr>similarity := Some n\<rparr>) s))) = Inl e \<Longrightarrow>
      e = ValueError \<and> length l > int_max_str_digits"
  proof -
    assume a: "(case search_percent l of None \<Rightarrow> Inr s
      | Some ds \<Rightarrow> (case py_int ds of Inl e \<Rightarrow> Inl e
          | Inr n \<Rightarrow> Inr (set_file (\<lambda>f. f\<lparr>similarity := Some n\<rparr>) s))) = Inl e"
    then obtain ds where ds: "search_percent l = Some ds" "py_int ds = Inl e"
      by (auto split: option.splits sum.splits)
    from search_percent_Some[OF ds(1)] ds(2) show ?thesis
      by (auto simp: py_int_digits split: if_splits)
  qed
  from assms consider
      "startswith l ''new file mode''" "py_last (split_ws l) = Inl e"
    | "startswith l ''old mode''" "py_last (split_ws l) = Inl e"
    | "startswith l ''new mode''" "py_last (split_ws l) = Inl e"
    | "(case search_percent l of None \<Rightarrow> Inr s
        | Some ds \<Rightarrow> (case py_int ds of Inl e \<Rightarrow> Inl e
            | Inr n \<Rightarrow> Inr (set_file (\<lambda>f. f\<lparr>similarity := Some n\<rparr>) s))) = Inl e"
    | "hunk_header_line s l = Inl e"
    unfolding parse_line_def by (auto split: if_splits sum.splits)
  then show ?thesis
  proof cases
    case 1
    then show ?thesis using no_mode[of "CHR ''n''" "''ew file mode''"] w by simp
  next
    case 2
    then show ?thesis using no_mode[of "CHR ''o''" "''ld mode''"] w by simp
  next
    case 3
    then show ?thesis using no_mode[of "CHR ''n''" "''ew mode''"] w by simp
  next
    case 4
    then show ?thesis by (rule sim)
  next
    case 5
    then show ?thesis by (rule hunk_header_line_raises)
  qed
qed

lemma parse_lines_raises:
  "parse_lines s ls = Inl e \<Longrightarrow>
   e = ValueError \<and> (\<exists>l \<in> set ls. length l > int_max_str_digits)"
proof (induction ls arbitrary: s)
  case Nil
  then show ?case by simp
next
  case (Cons l ls)
  show ?case
  proof (cases "parse_line s l")
    case (Inl x)
    then show ?thesis using Cons.prems parse_line_raises[of s l x] by simp
  next
    case (Inr s1)
    then show ?thesis using Cons.prems Cons.IH[of s1] by simp
  qed
qed

text \<open>\<open>parse_diff\<close> raises nothing but \<open>ValueError\<close>, and only on a text with a line of
  more than 4300 characters; on every other text it returns a result.\<close>

lemma parse_diff_raises:
  assumes "parse_diff diff_raw stat_raw = Inl e"
  shows "e = ValueError \<and> (\<exists>l \<in> set (split_nl diff_raw). length l > int_max_str_digits)"
proof -
  have "parse_lines init_state (split_nl diff_raw) = Inl e"
  proof (cases "parse_lines init_state (split_nl diff_raw)")
    case (Inl x)
    then show ?thesis using assms by (simp add: parse_diff_def parse_diff_lines_def)
  next
    case (Inr s)
    then show ?thesis
      using assms finish_files[of s stat_raw]
      by (auto simp: parse_diff_def parse_diff_lines_def)
  qed
  then show ?thesis by (rule parse_lines_raises)
qed

lemma parse_diff_returns:
  assumes "\<forall>l \<in> set (split_nl diff_raw). length l \<le> int_max_str_digits"
  shows "\<exists>r. parse_diff diff_raw stat_raw = Inr r"
proof (cases "parse_diff diff_raw stat_raw")
  case (Inl e)
  from parse_diff_raises[OF this] assms show ?thesis by (auto simp: not_le[symmetric])
next
  case (Inr r)
  then show ?thesis by blast
qed

end
